theory Spec2Isabelle
  imports Main
begin

section \<open>Errors\<close>

text \<open>
  The error codes of the RPC library (\<^verbatim>\<open>connect.Code\<close>). The repository names one of
  them, \<^verbatim>\<open>connect.CodeUnimplemented\<close>; the others are listed so that the code of an
  error is a real choice.
\<close>

datatype code =
    CodeCanceled
  | CodeUnknown
  | CodeInvalidArgument
  | CodeDeadlineExceeded
  | CodeNotFound
  | CodeAlreadyExists
  | CodePermissionDenied
  | CodeResourceExhausted
  | CodeFailedPrecondition
  | CodeAborted
  | CodeOutOfRange
  | CodeUnimplemented
  | CodeInternal
  | CodeUnavailable
  | CodeDataLoss
  | CodeUnauthenticated

text \<open>
  Go error values, as far as the handlers build or inspect them: the sentinels
  \<^verbatim>\<open>io.EOF\<close>, \<^verbatim>\<open>context.Canceled\<close> and \<^verbatim>\<open>context.DeadlineExceeded\<close>, a plain
  \<^verbatim>\<open>errors.New(msg)\<close>, \<^verbatim>\<open>fmt.Errorf(prefix + "%w", err)\<close> (which wraps \<open>err\<close>) and
  \<^verbatim>\<open>connect.NewError(code, err)\<close> (which wraps \<open>err\<close> too).
\<close>

datatype error =
    io_EOF
  | context_Canceled
  | context_DeadlineExceeded
  | errors_New string
  | fmt_Errorf string error
  | connect_NewError code error

text \<open>\<^verbatim>\<open>errors.Is(err, target)\<close>: \<open>target\<close> is \<open>err\<close> or is found by unwrapping it.\<close>

fun errors_Is :: "error \<Rightarrow> error \<Rightarrow> bool" where
  "errors_Is (fmt_Errorf p e) target = (fmt_Errorf p e = target \<or> errors_Is e target)"
| "errors_Is (connect_NewError c e) target = (connect_NewError c e = target \<or> errors_Is e target)"
| "errors_Is err target = (err = target)"

section \<open>The reply generator: package \<^verbatim>\<open>eliza\<close>\<close>

text \<open>
  \<^verbatim>\<open>eliza.Reply(sentence)\<close> returns a reply and the end-of-conversation flag, and
  \<^verbatim>\<open>eliza.GetIntroResponses(name)\<close> returns the introduction sentences for a name. The
  package is not among the files verified here, so every handler below takes the two
  functions as parameters and every theorem holds for all of them.
\<close>

type_synonym Reply = "string \<Rightarrow> string \<times> bool"
type_synonym GetIntroResponses = "string \<Rightarrow> string list"

text \<open>
  Two fixed instances, used only to run the handlers on concrete inputs: a reply
  generator that ends the conversation on \<open>''bye''\<close>, and a two-sentence introduction.
\<close>

definition sample_Reply :: Reply where
  "sample_Reply sentence =
     (if sentence = ''bye'' then (''Goodbye.'', True) else (''Tell me more.'', False))"

definition sample_GetIntroResponses :: GetIntroResponses where
  "sample_GetIntroResponses name = [''Hi '' @ name, ''How are you feeling today?'']"

section \<open>The service: \<^verbatim>\<open>elizaServer\<close>\<close>

text \<open>
  \<^verbatim>\<open>time.Duration\<close> is a signed count of nanoseconds. The handlers only compare it with
  zero, so it is an \<open>int\<close>. Every protobuf message of the service has one string field
  (\<open>Sentence\<close>, or \<open>Name\<close> for the introduction request) and is modelled as that field.
\<close>

type_synonym Duration = int

record elizaServer =
  streamDelay :: Duration

definition NewElizaServer :: "Duration \<Rightarrow> elizaServer" where
  "NewElizaServer d = \<lparr>streamDelay = d\<rparr>"

subsection \<open>Say\<close>

text \<open>
  \<^verbatim>\<open>reply, _ := eliza.Reply(req.Msg.Sentence)\<close>, then the response with that sentence and
  a nil error. The result is \<open>Inr\<close> of the response, or \<open>Inl\<close> of an error.
\<close>

definition Say :: "Reply \<Rightarrow> elizaServer \<Rightarrow> string \<Rightarrow> error + string" where
  "Say Reply e sentence = (let (reply, _) = Reply sentence in Inr reply)"

subsection \<open>The caller's context and the streams\<close>

text \<open>
  A handler sees its \<^verbatim>\<open>context.Context\<close> only at the places where it looks: a call of
  \<^verbatim>\<open>ctx.Err()\<close>, or a \<^verbatim>\<open>select\<close> with the case \<^verbatim>\<open><-ctx.Done()\<close>. A context is therefore
  given by how many of these observations, counted from the start of the call, find it
  not yet done (\<open>None\<close>: it is never done while the call runs), and by the error that
  \<^verbatim>\<open>ctx.Err()\<close> returns from then on (\<^verbatim>\<open>context.Canceled\<close> or
  \<^verbatim>\<open>context.DeadlineExceeded\<close>). A context that is done stays done. So
  \<open>alive_for ctx = Some n\<close> says that the caller cancels (or the deadline passes) after
  the \<open>n\<close>-th observation of the handler and before the next one, if there is one.
\<close>

record Context =
  alive_for :: "nat option"
  cause :: error

definition ctx_Done :: "Context \<Rightarrow> nat \<Rightarrow> bool" where
  "ctx_Done ctx k = (case alive_for ctx of None \<Rightarrow> False | Some n \<Rightarrow> n \<le> k)"

definition ctx_Err :: "Context \<Rightarrow> nat \<Rightarrow> error option" where
  "ctx_Err ctx k = (if ctx_Done ctx k then Some (cause ctx) else None)"

text \<open>
  The inbound side of a stream is the list of the results that successive calls of
  \<^verbatim>\<open>stream.Receive()\<close> return: \<open>Inr\<close> a sentence or \<open>Inl\<close> an error. When the list is
  used up the caller has closed its side and \<open>Receive\<close> returns \<^verbatim>\<open>io.EOF\<close>. The outbound
  side is given by the error of the \<open>k\<close>-th call of \<^verbatim>\<open>stream.Send\<close> (\<open>None\<close>: the message
  was sent).
\<close>

type_synonym Inbound = "(error + string) list"
type_synonym SendResult = "nat \<Rightarrow> error option"

definition never_done :: Context where
  "never_done = \<lparr>alive_for = None, cause = context_Canceled\<rparr>"

definition canceled_after :: "nat \<Rightarrow> Context" where
  "canceled_after n = \<lparr>alive_for = Some n, cause = context_Canceled\<rparr>"

definition all_sent :: SendResult where
  "all_sent k = None"

subsection \<open>Converse\<close>

text \<open>
  One iteration of the \<^verbatim>\<open>for\<close> loop per equation: the check of \<^verbatim>\<open>ctx.Err()\<close>, the
  receive (a clean return on \<^verbatim>\<open>io.EOF\<close>, a wrapped error otherwise), the reply, the send
  (a wrapped error if it fails), and the return after the send when the reply ends the
  session. \<open>k\<close> counts the iterations. The result is the list of the replies sent and
  the error returned.
\<close>

fun Converse_loop ::
  "Reply \<Rightarrow> Context \<Rightarrow> SendResult \<Rightarrow> nat \<Rightarrow> Inbound \<Rightarrow> string list \<times> error option" where
  "Converse_loop Reply ctx send k inbound =
     (case ctx_Err ctx k of
        Some err \<Rightarrow> ([], Some err)
      | None \<Rightarrow>
          (case inbound of
             [] \<Rightarrow> ([], None)
           | Inl err # rest \<Rightarrow>
               if errors_Is err io_EOF then ([], None)
               else ([], Some (fmt_Errorf ''receive request: '' err))
           | Inr sentence # rest \<Rightarrow>
               (let (reply, endSession) = Reply sentence in
                  case send k of
                    Some err \<Rightarrow> ([], Some (fmt_Errorf ''send response: '' err))
                  | None \<Rightarrow>
                      if endSession then ([reply], None)
                      else (let (sent, res) = Converse_loop Reply ctx send (Suc k) rest
                            in (reply # sent, res)))))"

definition Converse ::
  "Reply \<Rightarrow> elizaServer \<Rightarrow> Context \<Rightarrow> SendResult \<Rightarrow> Inbound \<Rightarrow> string list \<times> error option" where
  "Converse Reply e ctx send inbound = Converse_loop Reply ctx send 0 inbound"

subsection \<open>Introduce\<close>

text \<open>
  What the caller can see of a run of \<open>Introduce\<close>: \<open>Wait d\<close>, the \<^verbatim>\<open>select\<close> of the
  handler took a tick of the ticker of period \<open>d\<close>, and \<open>Emit s\<close>, the sentence \<open>s\<close> was
  sent on the stream.
\<close>

datatype event = Wait Duration | Emit string

fun emitted :: "event list \<Rightarrow> string list" where
  "emitted [] = []"
| "emitted (Emit s # evs) = s # emitted evs"
| "emitted (Wait d # evs) = emitted evs"

text \<open>
  The \<^verbatim>\<open>select\<close> has two cases. \<^verbatim>\<open>case <-ctx.Done()\<close> is ready when the context is done;
  \<^verbatim>\<open>case <-ticker.C\<close> is ready when a tick is pending in the channel of the ticker, which
  is made once, before the loop, and keeps ticking while the handler sends. When the
  context is not done the \<^verbatim>\<open>select\<close> takes the tick, waiting for it if none is pending.
  When the context is done and no tick is pending it takes the context's case. When the
  context is done and a tick is pending, both cases are ready and Go chooses one of them
  at random. The environment of the \<open>k\<close>-th \<^verbatim>\<open>select\<close> is therefore: whether a tick is
  pending when the \<^verbatim>\<open>select\<close> finds the context done, and which case the random choice
  picks then.
\<close>

datatype chosen = CtxDone | Tick

record Select =
  tick_pending :: "nat \<Rightarrow> bool"
  pick :: "nat \<Rightarrow> chosen"

definition select_case :: "Context \<Rightarrow> Select \<Rightarrow> nat \<Rightarrow> chosen" where
  "select_case ctx sel k =
     (if ctx_Done ctx k then (if tick_pending sel k then pick sel k else CtxDone) else Tick)"

definition no_tick_pending :: Select where
  "no_tick_pending = \<lparr>tick_pending = (\<lambda>k. False), pick = (\<lambda>k. CtxDone)\<rparr>"

definition tick_wins :: Select where
  "tick_wins = \<lparr>tick_pending = (\<lambda>k. True), pick = (\<lambda>k. Tick)\<rparr>"

text \<open>
  The \<^verbatim>\<open>range\<close> loop. The ticker is \<open>None\<close> (Go's nil) or the period it was made with.
  With a ticker, the \<^verbatim>\<open>select\<close> comes first: if it takes the context's case the handler
  returns \<^verbatim>\<open>ctx.Err()\<close>, otherwise it has taken a tick. Then the send, whose error ends
  the loop. \<open>k\<close> counts the iterations.
\<close>

fun Introduce_loop ::
  "Context \<Rightarrow> Select \<Rightarrow> SendResult \<Rightarrow> Duration option \<Rightarrow> nat \<Rightarrow> string list \<Rightarrow>
   event list \<times> error option" where
  "Introduce_loop ctx sel send ticker k [] = ([], None)"
| "Introduce_loop ctx sel send ticker k (resp # rest) =
     (if ticker \<noteq> None \<and> select_case ctx sel k = CtxDone then ([], ctx_Err ctx k)
      else (let waited = (case ticker of None \<Rightarrow> [] | Some d \<Rightarrow> [Wait d]) in
              case send k of
                Some err \<Rightarrow> (waited, Some err)
              | None \<Rightarrow>
                  (let (evs, res) = Introduce_loop ctx sel send ticker (Suc k) rest
                   in (waited @ Emit resp # evs, res))))"

definition Introduce ::
  "GetIntroResponses \<Rightarrow> elizaServer \<Rightarrow> Context \<Rightarrow> Select \<Rightarrow> SendResult \<Rightarrow> string \<Rightarrow>
   event list \<times> error option" where
  "Introduce GetIntroResponses e ctx sel send req_name =
     (let name = (if req_name = [] then ''Anonymous User'' else req_name);
          intros = GetIntroResponses name;
          ticker = (if streamDelay e > 0 then Some (streamDelay e) else None)
      in Introduce_loop ctx sel send ticker 0 intros)"

section \<open>Startup: \<^verbatim>\<open>main\<close>\<close>

text \<open>
  What the process does, in program order, as a function of the parsed flags
  (\<^verbatim>\<open>--help\<close>, \<^verbatim>\<open>--server-stream-delay\<close>) and of the environment variable \<^verbatim>\<open>PORT\<close>
  (empty when unset): printing the flag defaults, logging a diagnostic, mounting the
  service on the mux, starting \<^verbatim>\<open>ListenAndServe\<close> on an address, printing a line,
  waiting for a signal and shutting the server down. The other handlers on the mux (the
  redirect, health and reflection) and the options of the server are left out.
\<close>

datatype effect =
    PrintDefaults
  | LogPrintf string
  | Mount elizaServer
  | ListenAndServe string
  | Println string
  | AwaitSignal
  | Shutdown

definition main :: "bool \<Rightarrow> Duration \<Rightarrow> string \<Rightarrow> effect list" where
  "main helpArg streamDelayArg PORT =
     (if helpArg then [PrintDefaults]
      else if streamDelayArg < 0 then [LogPrintf ''Server stream delay cannot be negative.'']
      else (let addr = (if PORT \<noteq> [] then '':'' @ PORT else ''localhost:8082'')
            in [Mount (NewElizaServer streamDelayArg),
                ListenAndServe addr,
                Println (''Server started at '' @ addr),
                AwaitSignal,
                Shutdown]))"

section \<open>The logging interceptor: \<^verbatim>\<open>RequestLoggingInterceptor\<close>\<close>

text \<open>
  A log record of \<^verbatim>\<open>logger.DebugContext(ctx, msg, slog.Any("request", v))\<close>: the
  message and the value logged under the key \<^verbatim>\<open>request\<close>.
\<close>

datatype 'v log_record = Debug string 'v

text \<open>
  \<open>WrapUnary\<close>: the wrapped function writes one record and then returns what \<open>next\<close>
  returns on the same context and request. The result pairs the records written by the
  interceptor with the value returned.
\<close>

definition WrapUnary :: "('ctx \<Rightarrow> 'req \<Rightarrow> 'res) \<Rightarrow> 'ctx \<Rightarrow> 'req \<Rightarrow> 'req log_record list \<times> 'res" where
  "WrapUnary next ctx req = ([Debug ''unary_request'' req], next ctx req)"

text \<open>
  A \<^verbatim>\<open>connect.StreamingHandlerConn\<close> is a state \<open>'c\<close> with its two stream operations:
  \<open>Receive\<close> returns a message or an error, \<open>Send\<close> returns an error or nil, and both
  may change the state. The wrapper \<^verbatim>\<open>wrappedStreamingHandlerConn\<close> embeds the connection
  and adds \<^verbatim>\<open>onReceive\<close>, which appends a record to the log; its state is the log
  together with the state of the embedded connection. \<open>Receive\<close> is overridden,
  \<open>Send\<close> is the embedded connection's.
\<close>

definition wrapped_Receive ::
  "('c \<Rightarrow> (error + 'm) \<times> 'c) \<Rightarrow> 'm log_record list \<times> 'c \<Rightarrow> (error + 'm) \<times> 'm log_record list \<times> 'c" where
  "wrapped_Receive Receive w =
     (case Receive (snd w) of
        (Inl err, c) \<Rightarrow> (Inl err, fst w, c)
      | (Inr v, c) \<Rightarrow> (Inr v, fst w @ [Debug ''streaming_request'' v], c))"

definition wrapped_Send ::
  "('m \<Rightarrow> 'c \<Rightarrow> error option \<times> 'c) \<Rightarrow> 'm \<Rightarrow> 'm log_record list \<times> 'c \<Rightarrow> error option \<times> 'm log_record list \<times> 'c" where
  "wrapped_Send Send v w = (case Send v (snd w) of (r, c) \<Rightarrow> (r, fst w, c))"

text \<open>
  A \<^verbatim>\<open>connect.StreamingHandlerFunc\<close> uses its connection only through \<open>Receive\<close> and
  \<open>Send\<close>, so it is the tree of what it does with their results until it returns.
  \<open>run\<close> lets a handler act on a connection and gives the value returned and the final
  state of the connection.
\<close>

datatype ('m, 'r) StreamingHandlerFunc =
    Return 'r
  | DoReceive "error + 'm \<Rightarrow> ('m, 'r) StreamingHandlerFunc"
  | DoSend 'm "error option \<Rightarrow> ('m, 'r) StreamingHandlerFunc"

primrec run ::
  "('c \<Rightarrow> (error + 'm) \<times> 'c) \<Rightarrow> ('m \<Rightarrow> 'c \<Rightarrow> error option \<times> 'c) \<Rightarrow>
   ('m, 'r) StreamingHandlerFunc \<Rightarrow> 'c \<Rightarrow> 'r \<times> 'c" where
  "run Receive Send (Return r) c = (r, c)"
| "run Receive Send (DoReceive k) c = (case Receive c of (x, c') \<Rightarrow> run Receive Send (k x) c')"
| "run Receive Send (DoSend v k) c = (case Send v c of (x, c') \<Rightarrow> run Receive Send (k x) c')"

text \<open>
  \<open>WrapStreamingHandler\<close>: the wrapped function calls \<open>next\<close> with the same context
  and with the wrapper around the connection, whose log starts empty. The result is the
  log written, the value \<open>next\<close> returned and the final state of the connection.
\<close>

definition WrapStreamingHandler ::
  "('ctx \<Rightarrow> ('m, 'r) StreamingHandlerFunc) \<Rightarrow> 'ctx \<Rightarrow>
   ('c \<Rightarrow> (error + 'm) \<times> 'c) \<Rightarrow> ('m \<Rightarrow> 'c \<Rightarrow> error option \<times> 'c) \<Rightarrow> 'c \<Rightarrow>
   'm log_record list \<times> 'r \<times> 'c" where
  "WrapStreamingHandler next ctx Receive Send shc =
     (case run (wrapped_Receive Receive) (wrapped_Send Send) (next ctx) ([], shc) of
        (r, log, c) \<Rightarrow> (log, r, c))"

text \<open>
  A connection for concrete runs: its state is the list of the results still to be
  received and the list of the messages sent so far.
\<close>

definition queue_Receive :: "(error + string) list \<times> string list \<Rightarrow> (error + string) \<times> (error + string) list \<times> string list" where
  "queue_Receive c = (case fst c of [] \<Rightarrow> (Inl io_EOF, c) | x # rest \<Rightarrow> (x, rest, snd c))"

definition queue_Send :: "string \<Rightarrow> (error + string) list \<times> string list \<Rightarrow> error option \<times> (error + string) list \<times> string list" where
  "queue_Send v c = (None, fst c, snd c @ [v])"

text \<open>A handler for concrete runs: it answers the first message with itself.\<close>

definition echo_once :: "unit \<Rightarrow> (string, error option) StreamingHandlerFunc" where
  "echo_once ctx =
     DoReceive (\<lambda>x. case x of Inl err \<Rightarrow> Return (Some err) | Inr v \<Rightarrow> DoSend v (\<lambda>r. Return r))"

section \<open>The generated placeholder: \<^verbatim>\<open>UnimplementedElizaServiceHandler\<close>\<close>

definition ElizaServiceName :: string where
  "ElizaServiceName = ''connectrpc.eliza.v1.ElizaService''"

text \<open>
  A streaming handler's outcome is the list of messages it sent on the stream and the
  error it returned (\<open>None\<close> is Go's nil). The placeholder handlers never touch their
  arguments: the request, the context and the stream are unnamed parameters.
\<close>

definition Unimplemented_Say :: "string \<Rightarrow> error + string" where
  "Unimplemented_Say req =
     Inl (connect_NewError CodeUnimplemented
            (errors_New ''connectrpc.eliza.v1.ElizaService.Say is not implemented''))"

definition Unimplemented_Converse :: "string list \<Rightarrow> string list \<times> error option" where
  "Unimplemented_Converse inbound =
     ([], Some (connect_NewError CodeUnimplemented
            (errors_New ''connectrpc.eliza.v1.ElizaService.Converse is not implemented'')))"

definition Unimplemented_Introduce :: "string \<Rightarrow> string list \<times> error option" where
  "Unimplemented_Introduce req =
     ([], Some (connect_NewError CodeUnimplemented
            (errors_New ''connectrpc.eliza.v1.ElizaService.Introduce is not implemented'')))"

section \<open>Theorems\<close>

lemma sample_Reply_simp:
  "sample_Reply s = (if s = ''bye'' then (''Goodbye.'', True) else (''Tell me more.'', False))"
  by (simp add: sample_Reply_def)

subsection \<open>Say\<close>

text \<open>
  C4. For every input sentence (the non-empty ones among them), \<open>Say\<close> returns one
  sentence and no error; the sentence is the reply component of the reply generator on
  the input, and the end-of-conversation component does not reach the response: replacing
  it by any other flag \<open>flag\<close> leaves the result unchanged.
\<close>

theorem Say_returns_reply:
  "Say Reply e sentence = Inr (fst (Reply sentence)) \<and>
   Say (\<lambda>s. (fst (Reply s), flag s)) e sentence = Say Reply e sentence"
  by (simp add: Say_def split: prod.splits)

theorem Say_returns_reply_witness:
  "Say sample_Reply (NewElizaServer 0) ''bye'' = Inr ''Goodbye.'' \<and>
   Say (\<lambda>s. (fst (sample_Reply s), False)) (NewElizaServer 0) ''bye'' = Inr ''Goodbye.''"
  using Say_returns_reply [of sample_Reply "NewElizaServer 0" "''bye''" "\<lambda>s. False"]
  by (simp add: sample_Reply_simp)

subsection \<open>Converse\<close>

declare Converse_loop.simps [simp del]

text \<open>
  As long as the context is not done, the sends succeed and no reply ends the session,
  the loop answers the messages one by one and goes on with the rest of the stream.
\<close>

lemma Converse_loop_prefix:
  "\<forall>s \<in> set pre. \<not> snd (Reply s) \<Longrightarrow>
   \<forall>j < length pre. \<not> ctx_Done ctx (k + j) \<and> send (k + j) = None \<Longrightarrow>
   Converse_loop Reply ctx send k (map Inr pre @ rest) =
     (map (fst \<circ> Reply) pre @ fst (Converse_loop Reply ctx send (k + length pre) rest),
      snd (Converse_loop Reply ctx send (k + length pre) rest))"
proof (induction pre arbitrary: k)
  case Nil
  then show ?case by simp
next
  case (Cons s pre)
  have here: "\<not> ctx_Done ctx k" "send k = None"
    using Cons.prems(2) by force+
  have later: "\<forall>j < length pre. \<not> ctx_Done ctx (Suc k + j) \<and> send (Suc k + j) = None"
    using Cons.prems(2) by force
  have quiet: "\<not> snd (Reply s)" "\<forall>s \<in> set pre. \<not> snd (Reply s)"
    using Cons.prems(1) by simp_all
  obtain r where r: "Reply s = (r, False)"
    using quiet(1) by (cases "Reply s") simp
  show ?case
    using here r Cons.IH [OF quiet(2) later]
    by (subst Converse_loop.simps) (simp add: ctx_Err_def)
qed

lemma Converse_loop_done:
  "ctx_Done ctx k \<Longrightarrow> Converse_loop Reply ctx send k inbound = ([], Some (cause ctx))"
  by (subst Converse_loop.simps) (simp add: ctx_Err_def)

lemma Converse_loop_EOF:
  "\<not> ctx_Done ctx k \<Longrightarrow> Converse_loop Reply ctx send k [] = ([], None)"
  by (subst Converse_loop.simps) (simp add: ctx_Err_def)

lemma Converse_loop_end:
  "\<not> ctx_Done ctx k \<Longrightarrow> send k = None \<Longrightarrow> snd (Reply s) \<Longrightarrow>
   Converse_loop Reply ctx send k (Inr s # rest) = ([fst (Reply s)], None)"
  by (subst Converse_loop.simps) (cases "Reply s", simp add: ctx_Err_def)

text \<open>
  C2. Let the inbound stream deliver the sentences \<open>msgs\<close> and then end, let the context
  stay alive at every check and let every send succeed. If no sentence triggers the end
  of the conversation, the replies sent are the replies to all of \<open>msgs\<close>, one per input
  and in input order, and the call returns nil. If the sentence at index \<open>i\<close> (the
  \<open>Suc i\<close>-th) is the first that triggers it, the replies sent are the replies to the
  first \<open>Suc i\<close> sentences, the last one included, and the call returns nil: nothing is
  sent for a later sentence.
\<close>

theorem Converse_replies:
  assumes alive: "\<forall>k \<le> length msgs. \<not> ctx_Done ctx k"
    and sends: "\<forall>k < length msgs. send k = None"
  shows "((\<forall>s \<in> set msgs. \<not> snd (Reply s)) \<longrightarrow>
            Converse Reply e ctx send (map Inr msgs) = (map (fst \<circ> Reply) msgs, None)) \<and>
         (\<forall>i < length msgs. (\<forall>j < i. \<not> snd (Reply (msgs ! j))) \<and> snd (Reply (msgs ! i)) \<longrightarrow>
            Converse Reply e ctx send (map Inr msgs) =
              (map (fst \<circ> Reply) (take (Suc i) msgs), None))"
proof (intro conjI impI allI)
  assume quiet: "\<forall>s \<in> set msgs. \<not> snd (Reply s)"
  have steps: "\<forall>j < length msgs. \<not> ctx_Done ctx (0 + j) \<and> send (0 + j) = None"
    using alive sends by simp
  have last_check: "\<not> ctx_Done ctx (length msgs)"
    using alive by simp
  show "Converse Reply e ctx send (map Inr msgs) = (map (fst \<circ> Reply) msgs, None)"
    using Converse_loop_prefix [OF quiet steps, of "[]"] Converse_loop_EOF [OF last_check]
    by (simp add: Converse_def)
next
  fix i
  assume i: "i < length msgs"
    and first: "(\<forall>j < i. \<not> snd (Reply (msgs ! j))) \<and> snd (Reply (msgs ! i))"
  let ?pre = "take i msgs"
  have split: "msgs = ?pre @ msgs ! i # drop (Suc i) msgs"
    using i by (simp add: id_take_nth_drop)
  have quiet: "\<forall>s \<in> set ?pre. \<not> snd (Reply s)"
    using first i by (auto simp: in_set_conv_nth)
  have len: "length ?pre = i"
    using i by simp
  have steps: "\<forall>j < length ?pre. \<not> ctx_Done ctx (0 + j) \<and> send (0 + j) = None"
    using alive sends i by simp
  have ending: "Converse_loop Reply ctx send i (Inr (msgs ! i) # map Inr (drop (Suc i) msgs)) =
      ([fst (Reply (msgs ! i))], None)"
    using alive sends i first by (intro Converse_loop_end) simp_all
  have "Converse Reply e ctx send (map Inr msgs) =
      Converse_loop Reply ctx send 0 (map Inr ?pre @ Inr (msgs ! i) # map Inr (drop (Suc i) msgs))"
    by (subst split) (simp add: Converse_def)
  also have "\<dots> = (map (fst \<circ> Reply) ?pre @ [fst (Reply (msgs ! i))], None)"
    using Converse_loop_prefix [OF quiet steps, of "Inr (msgs ! i) # map Inr (drop (Suc i) msgs)"]
      ending i
    by (simp add: min_def)
  also have "map (fst \<circ> Reply) ?pre @ [fst (Reply (msgs ! i))] = map (fst \<circ> Reply) (take (Suc i) msgs)"
    using i by (simp add: take_Suc_conv_app_nth)
  finally show "Converse Reply e ctx send (map Inr msgs) =
      (map (fst \<circ> Reply) (take (Suc i) msgs), None)" .
qed

theorem Converse_replies_witness:
  "Converse sample_Reply (NewElizaServer 0) never_done all_sent [Inr ''hi'', Inr ''so''] =
     ([''Tell me more.'', ''Tell me more.''], None) \<and>
   Converse sample_Reply (NewElizaServer 0) never_done all_sent [Inr ''hi'', Inr ''bye'', Inr ''so''] =
     ([''Tell me more.'', ''Goodbye.''], None)"
proof -
  have alive: "\<forall>k \<le> n. \<not> ctx_Done never_done k" for n
    by (simp add: ctx_Done_def never_done_def)
  have sends: "\<forall>k < n. all_sent k = None" for n
    by (simp add: all_sent_def)
  have quiet: "\<forall>s \<in> set [''hi'', ''so'']. \<not> snd (sample_Reply s)"
    by (simp add: sample_Reply_simp)
  have first: "(\<forall>j < 1. \<not> snd (sample_Reply ([''hi'', ''bye'', ''so''] ! j))) \<and>
      snd (sample_Reply ([''hi'', ''bye'', ''so''] ! 1))"
    by (simp add: sample_Reply_simp)
  have idx: "1 < length [''hi'', ''bye'', ''so'']"
    by simp
  have a: "Converse sample_Reply (NewElizaServer 0) never_done all_sent (map Inr [''hi'', ''so'']) =
      (map (fst \<circ> sample_Reply) [''hi'', ''so''], None)"
    using Converse_replies [OF alive sends, THEN conjunct1, THEN mp, OF quiet] .
  have b: "Converse sample_Reply (NewElizaServer 0) never_done all_sent
        (map Inr [''hi'', ''bye'', ''so'']) =
      (map (fst \<circ> sample_Reply) (take (Suc 1) [''hi'', ''bye'', ''so'']), None)"
    using Converse_replies [OF alive sends, THEN conjunct2, THEN spec, THEN mp, THEN mp,
        OF idx first] .
  have va: "map (fst \<circ> sample_Reply) [''hi'', ''so''] = [''Tell me more.'', ''Tell me more.'']"
    by (simp add: sample_Reply_simp)
  have vb: "map (fst \<circ> sample_Reply) (take (Suc 1) [''hi'', ''bye'', ''so'']) =
      [''Tell me more.'', ''Goodbye.'']"
    by (simp add: sample_Reply_simp)
  show ?thesis
    using a [unfolded va] b [unfolded vb] by simp
qed

text \<open>
  C6, as the handler has it. The handler looks at the context at the check at the top of
  each iteration and nowhere else. Let the caller cancel after the \<open>n\<close>-th check, and let
  the messages \<open>pre\<close> be received and answered without ending the session. If the handler
  comes to another check after them (\<open>n = length pre\<close>), that check finds the context done:
  the call sends nothing more, whatever else the stream holds (\<open>rest\<close>), and returns the
  context's error. If the cancellation comes after the last check the handler makes
  (\<open>length pre < n\<close>), it is not seen: the call returns nil when the stream ends there, and
  it sends the reply and returns nil when the next sentence \<open>s\<close> ends the session.
\<close>

theorem Converse_cancelled:
  assumes cancelled: "alive_for ctx = Some n"
    and quiet: "\<forall>s \<in> set pre. \<not> snd (Reply s)"
    and sends: "\<forall>j < length pre. send j = None"
  shows "(n = length pre \<longrightarrow>
            Converse Reply e ctx send (map Inr pre @ rest) =
              (map (fst \<circ> Reply) pre, Some (cause ctx))) \<and>
         (length pre < n \<longrightarrow>
            Converse Reply e ctx send (map Inr pre) = (map (fst \<circ> Reply) pre, None)) \<and>
         (length pre < n \<and> snd (Reply s) \<and> send (length pre) = None \<longrightarrow>
            Converse Reply e ctx send (map Inr pre @ Inr s # rest) =
              (map (fst \<circ> Reply) (pre @ [s]), None))"
proof (intro conjI impI)
  assume n: "n = length pre"
  have steps: "\<forall>j < length pre. \<not> ctx_Done ctx (0 + j) \<and> send (0 + j) = None"
    using cancelled sends n by (simp add: ctx_Done_def)
  have finished: "ctx_Done ctx (0 + length pre)"
    using cancelled n by (simp add: ctx_Done_def)
  show "Converse Reply e ctx send (map Inr pre @ rest) = (map (fst \<circ> Reply) pre, Some (cause ctx))"
    using Converse_loop_prefix [OF quiet steps, of rest] Converse_loop_done [OF finished]
    by (simp add: Converse_def)
next
  assume n: "length pre < n"
  have steps: "\<forall>j < length pre. \<not> ctx_Done ctx (0 + j) \<and> send (0 + j) = None"
    using cancelled sends n by (simp add: ctx_Done_def)
  have alive: "\<not> ctx_Done ctx (0 + length pre)"
    using cancelled n by (simp add: ctx_Done_def)
  show "Converse Reply e ctx send (map Inr pre) = (map (fst \<circ> Reply) pre, None)"
    using Converse_loop_prefix [OF quiet steps, of "[]"] Converse_loop_EOF [OF alive]
    by (simp add: Converse_def)
next
  assume last: "length pre < n \<and> snd (Reply s) \<and> send (length pre) = None"
  have steps: "\<forall>j < length pre. \<not> ctx_Done ctx (0 + j) \<and> send (0 + j) = None"
    using cancelled sends last by (simp add: ctx_Done_def)
  have alive: "\<not> ctx_Done ctx (0 + length pre)"
    using cancelled last by (simp add: ctx_Done_def)
  have sent: "send (0 + length pre) = None" and ends: "snd (Reply s)"
    using last by simp_all
  show "Converse Reply e ctx send (map Inr pre @ Inr s # rest) =
      (map (fst \<circ> Reply) (pre @ [s]), None)"
    using Converse_loop_prefix [OF quiet steps, of "Inr s # rest"]
      Converse_loop_end [where Reply = Reply and ctx = ctx and send = send
        and k = "0 + length pre" and s = s and rest = rest, OF alive sent ends]
    by (simp add: Converse_def)
qed

theorem Converse_cancelled_witness:
  "Converse sample_Reply (NewElizaServer 0) (canceled_after 1) all_sent
     [Inr ''hi'', Inr ''so'', Inr ''bye''] = ([''Tell me more.''], Some context_Canceled) \<and>
   Converse sample_Reply (NewElizaServer 0) (canceled_after 2) all_sent [Inr ''hi''] =
     ([''Tell me more.''], None) \<and>
   Converse sample_Reply (NewElizaServer 0) (canceled_after 2) all_sent
     [Inr ''hi'', Inr ''bye'', Inr ''so''] = ([''Tell me more.'', ''Goodbye.''], None)"
proof -
  have cancelled: "alive_for (canceled_after m) = Some m" for m
    by (simp add: canceled_after_def)
  have quiet: "\<forall>s \<in> set [''hi'']. \<not> snd (sample_Reply s)"
    by (simp add: sample_Reply_simp)
  have sends: "\<forall>j < length [''hi'']. all_sent j = None"
    by (simp add: all_sent_def)
  have seen: "1 = length [''hi'']"
    by simp
  have unseen: "length [''hi''] < 2"
    by simp
  have last: "length [''hi''] < 2 \<and> snd (sample_Reply ''bye'') \<and> all_sent (length [''hi'']) = None"
    by (simp add: sample_Reply_simp all_sent_def)
  have v: "map (fst \<circ> sample_Reply) [''hi''] = [''Tell me more.'']"
    "map (fst \<circ> sample_Reply) ([''hi''] @ [''bye'']) = [''Tell me more.'', ''Goodbye.'']"
    by (simp_all add: sample_Reply_simp)
  have a: "Converse sample_Reply (NewElizaServer 0) (canceled_after 1) all_sent
      (map Inr [''hi''] @ [Inr ''so'', Inr ''bye'']) =
      (map (fst \<circ> sample_Reply) [''hi''], Some (cause (canceled_after 1)))"
    using Converse_cancelled [OF cancelled quiet sends, THEN conjunct1, THEN mp, OF seen] .
  have b: "Converse sample_Reply (NewElizaServer 0) (canceled_after 2) all_sent (map Inr [''hi'']) =
      (map (fst \<circ> sample_Reply) [''hi''], None)"
    using Converse_cancelled [OF cancelled quiet sends, THEN conjunct2, THEN conjunct1, THEN mp,
        OF unseen] .
  have c: "Converse sample_Reply (NewElizaServer 0) (canceled_after 2) all_sent
      (map Inr [''hi''] @ Inr ''bye'' # [Inr ''so'']) =
      (map (fst \<circ> sample_Reply) ([''hi''] @ [''bye'']), None)"
    using Converse_cancelled [OF cancelled quiet sends, THEN conjunct2, THEN conjunct2, THEN mp,
        OF last] .
  show ?thesis
    using a [unfolded v] b [unfolded v] c [unfolded v] by (simp add: canceled_after_def)
qed

text \<open>
  C6, as the claim has it: every cancellation during the exchange is surfaced. Let the
  caller cancel right after the first check, while the handler receives and answers
  \<open>''bye''\<close>: the reply ends the session, there is no further check, and the call sends
  the reply and returns nil. Likewise, let the caller cancel after the second check,
  while the handler waits in \<open>Receive\<close>, and let the stream end then: the call returns
  nil.
\<close>

theorem Converse_cancel_unseen_counterexample:
  "Converse sample_Reply (NewElizaServer 0) (canceled_after 1) all_sent [Inr ''bye'', Inr ''hi''] =
     ([''Goodbye.''], None) \<and>
   Converse sample_Reply (NewElizaServer 0) (canceled_after 2) all_sent [Inr ''hi''] =
     ([''Tell me more.''], None) \<and>
   snd (Converse sample_Reply (NewElizaServer 0) (canceled_after 1) all_sent [Inr ''bye'', Inr ''hi''])
     \<noteq> Some context_Canceled"
  by (simp add: Converse_def Converse_loop.simps ctx_Err_def ctx_Done_def canceled_after_def
      all_sent_def sample_Reply_simp)

subsection \<open>Introduce\<close>

text \<open>
  With a ticker, as long as the \<^verbatim>\<open>select\<close> takes the tick and the send succeeds, every
  sentence costs one wait and one emission, in this order.
\<close>

lemma Introduce_loop_ticking:
  "\<forall>j < length pre. select_case ctx sel (k + j) = Tick \<and> send (k + j) = None \<Longrightarrow>
   Introduce_loop ctx sel send (Some d) k (pre @ rest) =
     (concat (map (\<lambda>s. [Wait d, Emit s]) pre) @
        fst (Introduce_loop ctx sel send (Some d) (k + length pre) rest),
      snd (Introduce_loop ctx sel send (Some d) (k + length pre) rest))"
proof (induction pre arbitrary: k)
  case Nil
  then show ?case by simp
next
  case (Cons s pre)
  have here: "select_case ctx sel k = Tick" "send k = None"
    using Cons.prems by force+
  have later: "\<forall>j < length pre. select_case ctx sel (Suc k + j) = Tick \<and> send (Suc k + j) = None"
    using Cons.prems by force
  show ?case
    using here Cons.IH [OF later] by simp
qed

lemma select_case_alive: "\<not> ctx_Done ctx k \<Longrightarrow> select_case ctx sel k = Tick"
  by (simp add: select_case_def)

lemma Introduce_loop_no_ticker_ctx:
  "Introduce_loop ctx sel send None k intros = Introduce_loop ctx' sel' send None k intros"
  by (induction intros arbitrary: k) (simp_all split: option.splits)

lemma Introduce_loop_no_ticker:
  "\<forall>j < length intros. send (k + j) = None \<Longrightarrow>
   Introduce_loop ctx sel send None k intros = (map Emit intros, None)"
proof (induction intros arbitrary: k)
  case Nil
  then show ?case by simp
next
  case (Cons s intros)
  have here: "send k = None"
    using Cons.prems by force
  have later: "\<forall>j < length intros. send (Suc k + j) = None"
    using Cons.prems by force
  show ?case
    using here Cons.IH [OF later] by simp
qed

lemma emitted_paced: "emitted (concat (map (\<lambda>s. [Wait d, Emit s]) xs)) = xs"
  by (induction xs) simp_all

text \<open>
  C1, as the handler has it. With a delay \<open>D > 0\<close>, a context that is not done at any
  \<^verbatim>\<open>select\<close> and sends that succeed, the handler waits \<open>D\<close> before every sentence it
  emits, the first one included, and does nothing after the last one: the run is
  \<open>Wait D, Emit s\<^sub>1, \<dots>, Wait D, Emit s\<^sub>n\<close> and returns nil.
\<close>

theorem Introduce_waits_before_each:
  assumes delay: "0 < streamDelay e"
    and intros: "intros = GetIntroResponses (if name = [] then ''Anonymous User'' else name)"
    and alive: "\<forall>k < length intros. \<not> ctx_Done ctx k"
    and sends: "\<forall>k < length intros. send k = None"
  shows "Introduce GetIntroResponses e ctx sel send name =
           (concat (map (\<lambda>s. [Wait (streamDelay e), Emit s]) intros), None)"
proof -
  have steps: "\<forall>j < length intros. select_case ctx sel (0 + j) = Tick \<and> send (0 + j) = None"
    using alive sends by (simp add: select_case_alive)
  show ?thesis
    using Introduce_loop_ticking [OF steps, of "streamDelay e" "[]"] delay intros
    by (simp add: Introduce_def)
qed

theorem Introduce_waits_before_each_witness:
  "Introduce sample_GetIntroResponses (NewElizaServer 5) never_done no_tick_pending all_sent [] =
     ([Wait 5, Emit ''Hi Anonymous User'', Wait 5, Emit ''How are you feeling today?''], None)"
proof -
  have delay: "0 < streamDelay (NewElizaServer 5)"
    by (simp add: NewElizaServer_def)
  have intros: "[''Hi Anonymous User'', ''How are you feeling today?''] =
      sample_GetIntroResponses (if [] = [] then ''Anonymous User'' else [])"
    by (simp add: sample_GetIntroResponses_def)
  have alive: "\<forall>k < n. \<not> ctx_Done never_done k" for n
    by (simp add: ctx_Done_def never_done_def)
  have sends: "\<forall>k < n. all_sent k = None" for n
    by (simp add: all_sent_def)
  show ?thesis
    using Introduce_waits_before_each [where GetIntroResponses = sample_GetIntroResponses
        and name = "[]", OF delay intros alive sends]
    by (simp add: NewElizaServer_def)
qed

text \<open>
  C1, as the claim has it: no wait before the first sentence. With a delay of 5 and the
  name \<open>''Ann''\<close> the first thing the handler does is wait; the first sentence comes after
  that wait.
\<close>

theorem Introduce_first_wait_counterexample:
  "Introduce sample_GetIntroResponses (NewElizaServer 5) never_done no_tick_pending all_sent ''Ann'' =
     ([Wait 5, Emit ''Hi Ann'', Wait 5, Emit ''How are you feeling today?''], None) \<and>
   hd (fst (Introduce sample_GetIntroResponses (NewElizaServer 5) never_done no_tick_pending all_sent
     ''Ann'')) = Wait 5 \<and>
   hd (fst (Introduce sample_GetIntroResponses (NewElizaServer 5) never_done no_tick_pending all_sent
     ''Ann'')) \<noteq> Emit ''Hi Ann''"
  by (simp add: Introduce_def sample_GetIntroResponses_def NewElizaServer_def never_done_def
      all_sent_def ctx_Done_def select_case_def)

text \<open>
  C3. For the empty name, \<open>Introduce\<close> does exactly what it does for the name
  \<open>''Anonymous User''\<close>: the same emissions, waits and result, for every server (every
  configured delay), context, \<^verbatim>\<open>select\<close> environment and stream.
\<close>

theorem Introduce_empty_name:
  "Introduce GetIntroResponses e ctx sel send [] =
   Introduce GetIntroResponses e ctx sel send ''Anonymous User''"
  by (simp add: Introduce_def)

theorem Introduce_empty_name_witness:
  "Introduce sample_GetIntroResponses (NewElizaServer 5) (canceled_after 1) no_tick_pending all_sent [] =
   Introduce sample_GetIntroResponses (NewElizaServer 5) (canceled_after 1) no_tick_pending all_sent
     ''Anonymous User''"
  using Introduce_empty_name [of sample_GetIntroResponses "NewElizaServer 5" "canceled_after 1"
      no_tick_pending all_sent] .

lemma emitted_append: "emitted (xs @ ys) = emitted xs @ emitted ys"
  by (induction xs rule: emitted.induct) simp_all

text \<open>
  C5, as the handler has it. With a delay \<open>D > 0\<close>, let the caller cancel between the
  emission of sentence \<open>i\<close> and that of sentence \<open>i + 1\<close>, for an \<open>i\<close> below the number of
  sentences: the context is alive at the first \<open>i\<close> \<^verbatim>\<open>select\<close>s and done at the next one.
  If no tick is pending at that \<^verbatim>\<open>select\<close> (the cancellation comes before the next
  tick), the context's case is the only one ready, and if a tick is pending the random
  choice may fall on the context's case: then the caller observes exactly the first \<open>i\<close>
  sentences and the call returns the context's error. If a tick is pending and the
  choice falls on the tick, sentence \<open>i + 1\<close> is sent as well.
\<close>

theorem Introduce_cancelled_between:
  assumes delay: "0 < streamDelay e"
    and intros: "intros = GetIntroResponses (if name = [] then ''Anonymous User'' else name)"
    and i: "i < length intros"
    and cancelled: "alive_for ctx = Some i"
    and sends: "\<forall>k < i. send k = None"
  shows "(\<not> tick_pending sel i \<or> pick sel i = CtxDone \<longrightarrow>
            Introduce GetIntroResponses e ctx sel send name =
              (concat (map (\<lambda>s. [Wait (streamDelay e), Emit s]) (take i intros)),
               Some (cause ctx)) \<and>
            emitted (fst (Introduce GetIntroResponses e ctx sel send name)) = take i intros \<and>
            length (emitted (fst (Introduce GetIntroResponses e ctx sel send name))) = i) \<and>
         (tick_pending sel i \<and> pick sel i = Tick \<and> send i = None \<longrightarrow>
            take (Suc i) (emitted (fst (Introduce GetIntroResponses e ctx sel send name))) =
              take (Suc i) intros)"
proof -
  let ?D = "streamDelay e"
  let ?pre = "take i intros"
  let ?run = "Introduce GetIntroResponses e ctx sel send name"
  have run0: "?run = Introduce_loop ctx sel send (Some ?D) 0 intros"
    using delay intros by (simp add: Introduce_def)
  have seen: "ctx_Done ctx i"
    using cancelled by (simp add: ctx_Done_def)
  have before: "\<forall>j < i. select_case ctx sel j = Tick"
    using cancelled by (simp add: select_case_def ctx_Done_def)
  have stopped: "?run = (concat (map (\<lambda>s. [Wait ?D, Emit s]) ?pre), Some (cause ctx)) \<and>
      emitted (fst ?run) = ?pre \<and> length (emitted (fst ?run)) = i"
    if choice: "\<not> tick_pending sel i \<or> pick sel i = CtxDone"
  proof -
    have split: "intros = ?pre @ intros ! i # drop (Suc i) intros"
      using i by (simp add: id_take_nth_drop)
    have steps: "\<forall>j < length ?pre. select_case ctx sel (0 + j) = Tick \<and> send (0 + j) = None"
      using before sends by simp
    have taken: "select_case ctx sel i = CtxDone"
      using seen choice by (auto simp: select_case_def)
    have stop: "Introduce_loop ctx sel send (Some ?D) i (intros ! i # drop (Suc i) intros) =
        ([], Some (cause ctx))"
      using taken seen by (simp add: ctx_Err_def)
    have "Introduce_loop ctx sel send (Some ?D) 0 intros =
        Introduce_loop ctx sel send (Some ?D) 0 (?pre @ intros ! i # drop (Suc i) intros)"
      using split by simp
    also have "\<dots> = (concat (map (\<lambda>s. [Wait ?D, Emit s]) ?pre), Some (cause ctx))"
      using Introduce_loop_ticking [OF steps, of ?D "intros ! i # drop (Suc i) intros"] stop i
      by (simp add: min_def)
    finally have run: "?run = (concat (map (\<lambda>s. [Wait ?D, Emit s]) ?pre), Some (cause ctx))"
      using run0 by simp
    show ?thesis
      using i by (simp add: run emitted_paced)
  qed
  have went_on: "take (Suc i) (emitted (fst ?run)) = take (Suc i) intros"
    if choice: "tick_pending sel i \<and> pick sel i = Tick \<and> send i = None"
  proof -
    let ?more = "take (Suc i) intros"
    have len: "length ?more = Suc i"
      using i by simp
    have taken: "select_case ctx sel i = Tick"
      using seen choice by (simp add: select_case_def)
    have steps: "\<forall>j < length ?more. select_case ctx sel (0 + j) = Tick \<and> send (0 + j) = None"
      using before sends taken choice len by (auto simp: less_Suc_eq)
    have "fst (Introduce_loop ctx sel send (Some ?D) 0 (?more @ drop (Suc i) intros)) =
        concat (map (\<lambda>s. [Wait ?D, Emit s]) ?more) @
        fst (Introduce_loop ctx sel send (Some ?D) (0 + length ?more) (drop (Suc i) intros))"
      using Introduce_loop_ticking [OF steps, of ?D "drop (Suc i) intros"] by simp
    then have "emitted (fst ?run) =
        ?more @ emitted (fst (Introduce_loop ctx sel send (Some ?D) (0 + length ?more)
          (drop (Suc i) intros)))"
      using run0 by (simp add: emitted_append emitted_paced)
    then show ?thesis
      using len by simp
  qed
  show ?thesis
    using stopped went_on by blast
qed

theorem Introduce_cancelled_between_witness:
  "Introduce sample_GetIntroResponses (NewElizaServer 5) (canceled_after 1) no_tick_pending all_sent
     ''Ann'' = ([Wait 5, Emit ''Hi Ann''], Some context_Canceled) \<and>
   emitted (fst (Introduce sample_GetIntroResponses (NewElizaServer 5) (canceled_after 1)
     no_tick_pending all_sent ''Ann'')) = [''Hi Ann''] \<and>
   take 2 (emitted (fst (Introduce sample_GetIntroResponses (NewElizaServer 5) (canceled_after 1)
     tick_wins all_sent ''Ann''))) = [''Hi Ann'', ''How are you feeling today?'']"
proof -
  have delay: "0 < streamDelay (NewElizaServer 5)"
    by (simp add: NewElizaServer_def)
  have intros: "[''Hi Ann'', ''How are you feeling today?''] =
      sample_GetIntroResponses (if ''Ann'' = [] then ''Anonymous User'' else ''Ann'')"
    by (simp add: sample_GetIntroResponses_def)
  have i: "1 < length [''Hi Ann'', ''How are you feeling today?'']"
    by simp
  have cancelled: "alive_for (canceled_after 1) = Some 1"
    by (simp add: canceled_after_def)
  have sends: "\<forall>k < 1. all_sent k = None"
    by (simp add: all_sent_def)
  have no_tick: "\<not> tick_pending no_tick_pending 1 \<or> pick no_tick_pending 1 = CtxDone"
    by (simp add: no_tick_pending_def)
  have tick: "tick_pending tick_wins 1 \<and> pick tick_wins 1 = Tick \<and> all_sent 1 = None"
    by (simp add: tick_wins_def all_sent_def)
  note inst = Introduce_cancelled_between [where GetIntroResponses = sample_GetIntroResponses
      and name = "''Ann''", OF delay intros i cancelled sends]
  show ?thesis
    using inst [THEN conjunct1, THEN mp, OF no_tick] inst [THEN conjunct2, THEN mp, OF tick]
    by (simp add: NewElizaServer_def canceled_after_def numeral_2_eq_2)
qed

text \<open>
  C5, as the claim has it: every cancellation between two emissions stops the stream.
  With a delay of 5 and the name \<open>''Ann''\<close>, let the caller cancel between the first and
  the second sentence while a tick is already pending, and let the random choice of the
  \<^verbatim>\<open>select\<close> fall on the tick: the handler sends the second sentence as well and returns
  nil. The caller observes two sentences, not one, and no cancellation error.
\<close>

theorem Introduce_cancelled_tick_pending_counterexample:
  "Introduce sample_GetIntroResponses (NewElizaServer 5) (canceled_after 1) tick_wins all_sent ''Ann'' =
     ([Wait 5, Emit ''Hi Ann'', Wait 5, Emit ''How are you feeling today?''], None) \<and>
   length (emitted (fst (Introduce sample_GetIntroResponses (NewElizaServer 5) (canceled_after 1)
     tick_wins all_sent ''Ann''))) \<noteq> 1 \<and>
   snd (Introduce sample_GetIntroResponses (NewElizaServer 5) (canceled_after 1) tick_wins all_sent
     ''Ann'') \<noteq> Some context_Canceled"
  by (simp add: Introduce_def sample_GetIntroResponses_def NewElizaServer_def canceled_after_def
      all_sent_def ctx_Done_def select_case_def tick_wins_def)

text \<open>
  C10. With a delay of zero there is no ticker and the handler never looks at the context:
  its run is the same for every context \<open>ctx'\<close>, cancelled or not, and every \<^verbatim>\<open>select\<close>
  environment, and when the sends succeed it emits the whole introduction without a wait
  and returns nil.
\<close>

theorem Introduce_zero_delay:
  assumes delay: "streamDelay e = 0"
    and intros: "intros = GetIntroResponses (if name = [] then ''Anonymous User'' else name)"
  shows "Introduce GetIntroResponses e ctx sel send name =
           Introduce GetIntroResponses e ctx' sel' send name \<and>
         ((\<forall>k < length intros. send k = None) \<longrightarrow>
            Introduce GetIntroResponses e ctx sel send name = (map Emit intros, None))"
proof (intro conjI impI)
  show "Introduce GetIntroResponses e ctx sel send name =
      Introduce GetIntroResponses e ctx' sel' send name"
    using delay Introduce_loop_no_ticker_ctx [of ctx sel send 0 _ ctx' sel']
    by (simp add: Introduce_def)
next
  assume sends: "\<forall>k < length intros. send k = None"
  have steps: "\<forall>j < length intros. send (0 + j) = None"
    using sends by simp
  show "Introduce GetIntroResponses e ctx sel send name = (map Emit intros, None)"
    using delay intros Introduce_loop_no_ticker [OF steps, of ctx sel]
    by (simp add: Introduce_def)
qed

theorem Introduce_zero_delay_witness:
  "Introduce sample_GetIntroResponses (NewElizaServer 0) never_done no_tick_pending all_sent ''Ann'' =
     Introduce sample_GetIntroResponses (NewElizaServer 0) (canceled_after 1) tick_wins all_sent ''Ann'' \<and>
   Introduce sample_GetIntroResponses (NewElizaServer 0) (canceled_after 1) tick_wins all_sent ''Ann'' =
     ([Emit ''Hi Ann'', Emit ''How are you feeling today?''], None)"
proof -
  have delay: "streamDelay (NewElizaServer 0) = 0"
    by (simp add: NewElizaServer_def)
  have intros: "[''Hi Ann'', ''How are you feeling today?''] =
      sample_GetIntroResponses (if ''Ann'' = [] then ''Anonymous User'' else ''Ann'')"
    by (simp add: sample_GetIntroResponses_def)
  have sends: "\<forall>k < length [''Hi Ann'', ''How are you feeling today?'']. all_sent k = None"
    by (simp add: all_sent_def)
  have same: "Introduce sample_GetIntroResponses (NewElizaServer 0) never_done no_tick_pending
        all_sent ''Ann'' =
      Introduce sample_GetIntroResponses (NewElizaServer 0) (canceled_after 1) tick_wins all_sent ''Ann''"
    using Introduce_zero_delay [where GetIntroResponses = sample_GetIntroResponses
        and name = "''Ann''", OF delay intros, THEN conjunct1] .
  have full: "Introduce sample_GetIntroResponses (NewElizaServer 0) (canceled_after 1) tick_wins
        all_sent ''Ann'' = (map Emit [''Hi Ann'', ''How are you feeling today?''], None)"
    using Introduce_zero_delay [where GetIntroResponses = sample_GetIntroResponses
        and name = "''Ann''", OF delay intros, THEN conjunct2, THEN mp, OF sends] .
  show ?thesis
    using same full by simp
qed

subsection \<open>Startup\<close>

text \<open>
  C7, as the code has it. With a negative delay no service is mounted and no server
  listens, whatever the other flags. If help was not requested the process logs the
  diagnostic and does nothing else; if help was requested it prints the flag defaults and
  does nothing else (no diagnostic). A non-negative delay never logs the diagnostic.
\<close>

theorem main_negative_delay:
  "(streamDelayArg < 0 \<longrightarrow>
      (\<forall>srv. Mount srv \<notin> set (main helpArg streamDelayArg PORT)) \<and>
      (\<forall>addr. ListenAndServe addr \<notin> set (main helpArg streamDelayArg PORT))) \<and>
   (streamDelayArg < 0 \<and> \<not> helpArg \<longrightarrow>
      main helpArg streamDelayArg PORT = [LogPrintf ''Server stream delay cannot be negative.'']) \<and>
   (streamDelayArg < 0 \<and> helpArg \<longrightarrow> main helpArg streamDelayArg PORT = [PrintDefaults]) \<and>
   (0 \<le> streamDelayArg \<longrightarrow>
      LogPrintf ''Server stream delay cannot be negative.'' \<notin> set (main helpArg streamDelayArg PORT))"
  by (simp add: main_def Let_def)

theorem main_negative_delay_witness:
  "main False (- 1) [] = [LogPrintf ''Server stream delay cannot be negative.''] \<and>
   ListenAndServe ''localhost:8082'' \<notin> set (main False (- 1) []) \<and>
   Mount (NewElizaServer (- 1)) \<notin> set (main False (- 1) []) \<and>
   main True (- 1) [] = [PrintDefaults] \<and>
   LogPrintf ''Server stream delay cannot be negative.'' \<notin> set (main False 0 [])"
  using main_negative_delay [of "- 1" False "[]"] main_negative_delay [of "- 1" True "[]"]
    main_negative_delay [of 0 False "[]"]
  by simp

text \<open>
  C7, as the claim has it: every negative delay is reported. With \<^verbatim>\<open>--help\<close> and a
  delay of \<open>-1\<close> the process prints the defaults and reports nothing.
\<close>

theorem main_help_counterexample:
  "main True (- 1) [] = [PrintDefaults] \<and>
   LogPrintf ''Server stream delay cannot be negative.'' \<notin> set (main True (- 1) [])"
  by (simp add: main_def)

subsection \<open>The logging interceptor\<close>

text \<open>
  A handler run on the wrapper returns what it returns on the embedded connection and
  leaves that connection in the same state, whatever the log held before.
\<close>

lemma run_wrapped:
  "fst (run (wrapped_Receive Receive) (wrapped_Send Send) h (log, c)) = fst (run Receive Send h c) \<and>
   snd (snd (run (wrapped_Receive Receive) (wrapped_Send Send) h (log, c))) =
     snd (run Receive Send h c)"
proof (induction h arbitrary: log c)
  case (Return r)
  show ?case by simp
next
  case (DoReceive k)
  obtain x c' where step: "Receive c = (x, c')"
    by (cases "Receive c")
  show ?case
  proof (cases x)
    case (Inl err)
    have "k x \<in> range k" by simp
    from DoReceive [OF this, of log c'] step Inl show ?thesis
      by (simp add: wrapped_Receive_def)
  next
    case (Inr v)
    have "k x \<in> range k" by simp
    from DoReceive [OF this, of "log @ [Debug ''streaming_request'' v]" c'] step Inr show ?thesis
      by (simp add: wrapped_Receive_def)
  qed
next
  case (DoSend v k)
  obtain x c' where step: "Send v c = (x, c')"
    by (cases "Send v c")
  have "k x \<in> range k" by simp
  from DoSend [OF this, of log c'] step show ?case
    by (simp add: wrapped_Send_def)
qed

text \<open>
  C8. The interceptor is a pass-through. A wrapped unary function returns what \<open>next\<close>
  returns on the same request. A \<open>Receive\<close> through the wrapper returns the same
  message or the same error as the embedded connection and leaves it in the same state,
  so successive receives give the same messages in the same order; the log gains one
  record for a message and none for an error. \<open>Send\<close> is the embedded one. A wrapped
  streaming handler returns the same value and leaves the connection in the same state
  as the handler run without the interceptor.
\<close>

theorem interceptor_pass_through:
  "snd (WrapUnary next ctx req) = next ctx req \<and>
   fst (wrapped_Receive Receive (log, c)) = fst (Receive c) \<and>
   snd (snd (wrapped_Receive Receive (log, c))) = snd (Receive c) \<and>
   fst (snd (wrapped_Receive Receive (log, c))) =
     (case fst (Receive c) of Inl err \<Rightarrow> log | Inr m \<Rightarrow> log @ [Debug ''streaming_request'' m]) \<and>
   wrapped_Send Send v (log, c) = (fst (Send v c), log, snd (Send v c)) \<and>
   snd (WrapStreamingHandler handler ctx Receive Send c) = run Receive Send (handler ctx) c"
proof -
  have streaming: "snd (WrapStreamingHandler handler ctx Receive Send c) = run Receive Send (handler ctx) c"
    using run_wrapped [of Receive Send "handler ctx" "[]" c]
    by (simp add: WrapStreamingHandler_def case_prod_beta prod_eq_iff)
  have receive: "fst (wrapped_Receive Receive (log, c)) = fst (Receive c) \<and>
      snd (snd (wrapped_Receive Receive (log, c))) = snd (Receive c) \<and>
      fst (snd (wrapped_Receive Receive (log, c))) =
        (case fst (Receive c) of Inl err \<Rightarrow> log | Inr m \<Rightarrow> log @ [Debug ''streaming_request'' m])"
    by (simp add: wrapped_Receive_def split: prod.splits sum.splits)
  have send: "wrapped_Send Send v (log, c) = (fst (Send v c), log, snd (Send v c))"
    by (simp add: wrapped_Send_def split: prod.splits)
  show ?thesis
    using streaming receive send by (simp add: WrapUnary_def)
qed

theorem interceptor_pass_through_witness:
  "snd (WrapUnary (\<lambda>ctx. Say sample_Reply (NewElizaServer 0)) () ''bye'') = Inr ''Goodbye.'' \<and>
   snd (WrapStreamingHandler echo_once () queue_Receive queue_Send ([Inr ''a'', Inr ''b''], [])) =
     (None, [Inr ''b''], [''a''])"
proof -
  have unary: "snd (WrapUnary (\<lambda>ctx. Say sample_Reply (NewElizaServer 0)) () ''bye'') =
      Say sample_Reply (NewElizaServer 0) ''bye''"
    using interceptor_pass_through [THEN conjunct1] .
  have streaming: "snd (WrapStreamingHandler echo_once () queue_Receive queue_Send ([Inr ''a'', Inr ''b''], [])) =
      run queue_Receive queue_Send (echo_once ()) ([Inr ''a'', Inr ''b''], [])"
    using interceptor_pass_through [THEN conjunct2, THEN conjunct2, THEN conjunct2, THEN conjunct2,
        THEN conjunct2] .
  have v1: "Say sample_Reply (NewElizaServer 0) ''bye'' = Inr ''Goodbye.''"
    by (simp add: Say_def sample_Reply_simp)
  have v2: "run queue_Receive queue_Send (echo_once ()) ([Inr ''a'', Inr ''b''], []) =
      (None, [Inr ''b''], [''a''])"
    by (simp add: echo_once_def queue_Receive_def queue_Send_def)
  show ?thesis
    using unary streaming v1 v2 by simp
qed

subsection \<open>The placeholder handler\<close>

text \<open>
  C9. Each of the three operations of the placeholder returns an error of code
  \<open>CodeUnimplemented\<close> whose message is the service name, the name of the operation and
  \<open>is not implemented\<close>. The result does not depend on the arguments; there is no
  response and no message is sent on a stream.
\<close>

theorem Unimplemented_all:
  "Unimplemented_Say req = Inl (connect_NewError CodeUnimplemented
      (errors_New (ElizaServiceName @ ''.Say is not implemented''))) \<and>
   Unimplemented_Converse inbound = ([], Some (connect_NewError CodeUnimplemented
      (errors_New (ElizaServiceName @ ''.Converse is not implemented'')))) \<and>
   Unimplemented_Introduce name = ([], Some (connect_NewError CodeUnimplemented
      (errors_New (ElizaServiceName @ ''.Introduce is not implemented''))))"
  by (simp add: Unimplemented_Say_def Unimplemented_Converse_def Unimplemented_Introduce_def
      ElizaServiceName_def)

theorem Unimplemented_all_witness:
  "Unimplemented_Say ''Hey'' = Inl (connect_NewError CodeUnimplemented
      (errors_New ''connectrpc.eliza.v1.ElizaService.Say is not implemented'')) \<and>
   Unimplemented_Converse [''Hey''] = ([], Some (connect_NewError CodeUnimplemented
      (errors_New ''connectrpc.eliza.v1.ElizaService.Converse is not implemented''))) \<and>
   Unimplemented_Introduce ''John'' = ([], Some (connect_NewError CodeUnimplemented
      (errors_New ''connectrpc.eliza.v1.ElizaService.Introduce is not implemented'')))"
  using Unimplemented_all [of "''Hey''" "[''Hey'']" "''John''"]
  by (simp add: ElizaServiceName_def)

end
